theory Spec2Isabelle
  imports Main "HOL-Library.Sublist" "HOL-Library.Multiset"
begin

section \<open>Data model\<close>

text \<open>
  Nodes are mutable objects compared by reference (\<^verbatim>\<open>===\<close>), so a node is an address
  and the objects live in an explicit store. Every reference of the program denotes a
  live object (the language is garbage collected), hence the store is a total function.
  A model is an object read by property name (\<^verbatim>\<open>node.model[property]\<close>); a missing
  property reads as undefined, here \<open>None\<close>. The field \<^verbatim>\<open>index\<close> is undefined when
  the parsed data carries none. The per-node field \<^verbatim>\<open>strategy\<close> is never read by
  any operation and is left out.
\<close>

type_synonym ref = nat

type_synonym 'v model = "string \<Rightarrow> 'v option"

record 'v TreeNode =
  model :: "'v model"
  children :: "ref list"
  index :: "int option"

type_synonym 'v heap = "ref \<Rightarrow> 'v TreeNode"

text \<open>
  A predicate is a function of a node; it may read the node's fields and those of the
  nodes reachable from it, so it takes the store as well.
\<close>

type_synonym 'v predicate = "'v heap \<Rightarrow> ref \<Rightarrow> bool"

datatype 'v predicateOrProperty =
  Predicate "'v predicate"
| Property string

text \<open>
  The resolution shared by \<^verbatim>\<open>findChild\<close>, \<^verbatim>\<open>findChildren\<close>, \<^verbatim>\<open>deleteChildren\<close> and
  both \<^verbatim>\<open>insertChild\<close>: a function is used as it is, a property name is compared
  with \<^verbatim>\<open>value\<close> (undefined when the argument is omitted).
\<close>

definition resolve :: "'v predicateOrProperty \<Rightarrow> 'v option \<Rightarrow> 'v predicate" where
  "resolve predicateOrProperty val =
     (case predicateOrProperty of
        Predicate p \<Rightarrow> p
      | Property name \<Rightarrow> (\<lambda>h node. model (h node) name = val))"

section \<open>TreeNode\<close>

definition addChild :: "ref \<Rightarrow> ref option \<Rightarrow> 'v heap \<Rightarrow> 'v heap" where
  "addChild this child h =
     (case child of
        None \<Rightarrow> h
      | Some c \<Rightarrow> h(this := (h this)\<lparr>children := children (h this) @ [c]\<rparr>))"

definition removeChild :: "ref \<Rightarrow> ref option \<Rightarrow> 'v heap \<Rightarrow> 'v heap" where
  "removeChild this child h =
     (case child of
        None \<Rightarrow> h
      | Some c \<Rightarrow> h(this := (h this)\<lparr>children := filter (\<lambda>x. x \<noteq> c) (children (h this))\<rparr>))"

definition moveChild :: "ref \<Rightarrow> ref option \<Rightarrow> ref option \<Rightarrow> 'v heap \<Rightarrow> 'v heap" where
  "moveChild this child newParent h =
     (case (child, newParent) of
        (Some c, Some p) \<Rightarrow> addChild p (Some c) (removeChild this (Some c) h)
      | _ \<Rightarrow> h)"

text \<open>
  Recursive searches carry fuel, the call depth still allowed: on a cyclic store the
  source recurses without end, which is the result \<open>None\<close>. Inside it, the value
  \<open>Some None\<close> is the source's \<^verbatim>\<open>null\<close>.

  \<^verbatim>\<open>findChild\<close>: the loop over the children of a node, each child tested before its
  own children are searched.
\<close>

fun findChild_loop :: "nat \<Rightarrow> 'v heap \<Rightarrow> 'v predicate \<Rightarrow> ref list \<Rightarrow> ref option option" where
  "findChild_loop f h predicate [] = Some None"
| "findChild_loop 0 h predicate (child # rest) =
     (if predicate h child then Some (Some child) else None)"
| "findChild_loop (Suc f) h predicate (child # rest) =
     (if predicate h child then Some (Some child)
      else (case findChild_loop f h predicate (children (h child)) of
              None \<Rightarrow> None
            | Some (Some foundGranChild) \<Rightarrow> Some (Some foundGranChild)
            | Some None \<Rightarrow> findChild_loop (Suc f) h predicate rest))"

definition findChild ::
  "nat \<Rightarrow> 'v heap \<Rightarrow> ref \<Rightarrow> 'v predicateOrProperty \<Rightarrow> 'v option \<Rightarrow> ref option option" where
  "findChild f h this predicateOrProperty val =
     findChild_loop f h (resolve predicateOrProperty val) (children (h this))"

text \<open>
  \<^verbatim>\<open>getPath\<close>: the helper \<^verbatim>\<open>traverse\<close> pushes the current node on the shared path,
  and pops it when no child leads to the target.
\<close>

fun path_traverse :: "nat \<Rightarrow> 'v heap \<Rightarrow> ref \<Rightarrow> ref \<Rightarrow> ref list \<Rightarrow> (bool \<times> ref list) option"
and path_children :: "nat \<Rightarrow> 'v heap \<Rightarrow> ref \<Rightarrow> ref list \<Rightarrow> ref list \<Rightarrow> (bool \<times> ref list) option"
where
  "path_traverse 0 h targetNode currentNode path = None"
| "path_traverse (Suc f) h targetNode currentNode path =
     (if currentNode = targetNode then Some (True, path @ [currentNode])
      else (case path_children f h targetNode (children (h currentNode)) (path @ [currentNode]) of
              None \<Rightarrow> None
            | Some (True, p) \<Rightarrow> Some (True, p)
            | Some (False, p) \<Rightarrow> Some (False, butlast p)))"
| "path_children f h targetNode [] path = Some (False, path)"
| "path_children f h targetNode (child # rest) path =
     (case path_traverse f h targetNode child path of
        None \<Rightarrow> None
      | Some (True, p) \<Rightarrow> Some (True, p)
      | Some (False, p) \<Rightarrow> path_children f h targetNode rest p)"

definition getPath :: "nat \<Rightarrow> 'v heap \<Rightarrow> ref \<Rightarrow> ref \<Rightarrow> ref list option option" where
  "getPath f h this targetNode =
     (case path_traverse f h targetNode this [] of
        None \<Rightarrow> None
      | Some (found, path) \<Rightarrow> Some (if length path > 0 then Some path else None))"

definition getReversePath :: "nat \<Rightarrow> 'v heap \<Rightarrow> ref \<Rightarrow> ref \<Rightarrow> ref list option option" where
  "getReversePath f h this targetNode =
     (case getPath f h this targetNode of
        None \<Rightarrow> None
      | Some None \<Rightarrow> Some None
      | Some (Some path) \<Rightarrow> Some (Some (rev path)))"

text \<open>
  \<^verbatim>\<open>getParent\<close>: after the null check, the loop over the children of \<^verbatim>\<open>this\<close>. A
  node of the loop is returned when its own children include the child; the children
  of \<^verbatim>\<open>this\<close> itself are never compared with the child.
\<close>

fun getParent_loop :: "nat \<Rightarrow> 'v heap \<Rightarrow> ref list \<Rightarrow> ref \<Rightarrow> ref option option" where
  "getParent_loop f h [] child = Some None"
| "getParent_loop 0 h (node # rest) child =
     (if child \<in> set (children (h node)) then Some (Some node) else None)"
| "getParent_loop (Suc f) h (node # rest) child =
     (if child \<in> set (children (h node)) then Some (Some node)
      else (case getParent_loop f h (children (h node)) child of
              None \<Rightarrow> None
            | Some (Some parent) \<Rightarrow> Some (Some parent)
            | Some None \<Rightarrow> getParent_loop (Suc f) h rest child))"

definition getParent :: "nat \<Rightarrow> 'v heap \<Rightarrow> ref \<Rightarrow> ref option \<Rightarrow> ref option option" where
  "getParent f h this child =
     (case child of
        None \<Rightarrow> Some None
      | Some c \<Rightarrow> getParent_loop f h (children (h this)) c)"

definition findChildren :: "'v heap \<Rightarrow> ref \<Rightarrow> 'v predicateOrProperty \<Rightarrow> 'v option \<Rightarrow> ref list" where
  "findChildren h this predicateOrProperty val =
     filter (resolve predicateOrProperty val h) (children (h this))"

definition deleteChildren :: "ref \<Rightarrow> 'v predicateOrProperty \<Rightarrow> 'v option \<Rightarrow> 'v heap \<Rightarrow> 'v heap" where
  "deleteChildren this predicateOrProperty val h =
     h(this := (h this)\<lparr>children :=
         filter (\<lambda>child. \<not> resolve predicateOrProperty val h child) (children (h this))\<rparr>)"

text \<open>
  \<^verbatim>\<open>Array.prototype.findIndex\<close>: the index of the first element satisfying the
  predicate, or \<open>-1\<close>. \<^verbatim>\<open>splice(i, 0, x)\<close> with \<open>0 \<le> i\<close> inserts \<open>x\<close> before position
  \<open>i\<close>.
\<close>

fun findIndex :: "('a \<Rightarrow> bool) \<Rightarrow> 'a list \<Rightarrow> int" where
  "findIndex p [] = - 1"
| "findIndex p (x # xs) =
     (if p x then 0 else (let i = findIndex p xs in if i = - 1 then - 1 else i + 1))"

definition splice_insert :: "int \<Rightarrow> 'a \<Rightarrow> 'a list \<Rightarrow> 'a list" where
  "splice_insert i x xs = take (nat i) xs @ [x] @ drop (nat i) xs"

definition insertChild ::
  "ref \<Rightarrow> ref option \<Rightarrow> 'v predicateOrProperty \<Rightarrow> 'v option \<Rightarrow> 'v heap \<Rightarrow> 'v heap" where
  "insertChild this child predicateOrProperty val h =
     (case child of
        None \<Rightarrow> h
      | Some c \<Rightarrow>
          (let insertIndex = findIndex (resolve predicateOrProperty val h) (children (h this))
           in if insertIndex \<noteq> - 1
              then h(this := (h this)\<lparr>children := splice_insert insertIndex c (children (h this))\<rparr>)
              else h(this := (h this)\<lparr>children := children (h this) @ [c]\<rparr>)))"

subsection \<open>Traversals\<close>

datatype order =
  PreOrder | PostOrder | InOrder | ReversePreOrder | ReversePostOrder | ReverseInOrder

fun order_name :: "order \<Rightarrow> string" where
  "order_name PreOrder = ''pre-order''"
| "order_name PostOrder = ''post-order''"
| "order_name InOrder = ''in-order''"
| "order_name ReversePreOrder = ''reverse-pre-order''"
| "order_name ReversePostOrder = ''reverse-post-order''"
| "order_name ReverseInOrder = ''reverse-in-order''"

text \<open>\<^verbatim>\<open>String.prototype.includes\<close>: the argument occurs as a contiguous part.\<close>

definition str_includes :: "string \<Rightarrow> string \<Rightarrow> bool" where
  "str_includes s part = sublist part s"

text \<open>
  The helper \<^verbatim>\<open>traverse\<close> of \<^verbatim>\<open>depthFirstSearch\<close> appends to the shared array
  \<^verbatim>\<open>result\<close>, which is passed along here.
\<close>

fun traverse :: "nat \<Rightarrow> 'v heap \<Rightarrow> order \<Rightarrow> ref \<Rightarrow> ref list \<Rightarrow> ref list option"
and traverse_children :: "nat \<Rightarrow> 'v heap \<Rightarrow> order \<Rightarrow> ref list \<Rightarrow> ref list \<Rightarrow> ref list option"
where
  "traverse 0 h ord currentNode result = None"
| "traverse (Suc f) h ord currentNode result =
     (case traverse_children f h ord (children (h currentNode))
             (if str_includes (order_name ord) ''pre-order'' then result @ [currentNode] else result) of
        None \<Rightarrow> None
      | Some result' \<Rightarrow>
          Some (if str_includes (order_name ord) ''in-order'' then result' @ [currentNode]
                else if str_includes (order_name ord) ''post-order'' then result' @ [currentNode]
                else result'))"
| "traverse_children f h ord [] result = Some result"
| "traverse_children f h ord (child # rest) result =
     (case traverse f h ord child result of
        None \<Rightarrow> None
      | Some result' \<Rightarrow> traverse_children f h ord rest result')"

definition depthFirstSearch :: "nat \<Rightarrow> 'v heap \<Rightarrow> ref \<Rightarrow> order \<Rightarrow> ref list option" where
  "depthFirstSearch f h node ord =
     (case traverse f h ord node [] of
        None \<Rightarrow> None
      | Some result \<Rightarrow>
          Some (if ord = ReversePreOrder \<or> ord = ReversePostOrder \<or> ord = ReverseInOrder
                then rev result else result))"

text \<open>The loop of \<^verbatim>\<open>breadthFirstOrder\<close>; the fuel bounds its iterations.\<close>

fun breadthFirst_loop :: "nat \<Rightarrow> 'v heap \<Rightarrow> ref list \<Rightarrow> ref list \<Rightarrow> ref list option" where
  "breadthFirst_loop f h [] result = Some result"
| "breadthFirst_loop 0 h (current # queue) result = None"
| "breadthFirst_loop (Suc f) h (current # queue) result =
     breadthFirst_loop f h (queue @ children (h current)) (result @ [current])"

definition breadthFirstOrder :: "nat \<Rightarrow> 'v heap \<Rightarrow> ref \<Rightarrow> ref list option" where
  "breadthFirstOrder f h node = breadthFirst_loop f h [node] []"

text \<open>The order parameter of \<^verbatim>\<open>depthFirstSearch\<close> defaults to \<^verbatim>\<open>"in-order"\<close>.\<close>

definition defaultTraversalStrategy :: "nat \<Rightarrow> 'v heap \<Rightarrow> ref \<Rightarrow> ref list option" where
  "defaultTraversalStrategy f h node = depthFirstSearch f h node InOrder"

section \<open>Tree\<close>

text \<open>
  The strategy is a stored function from a node to a sequence of nodes; it reads the
  store, and gives \<open>None\<close> when it does not return.
\<close>

record 'v Tree =
  root :: "ref option"
  strategy :: "'v heap \<Rightarrow> ref \<Rightarrow> ref list option"

text \<open>
  The plain data consumed by \<^verbatim>\<open>parse\<close>: \<^verbatim>\<open>model\<close>, an optional \<^verbatim>\<open>index\<close> and an
  optional \<^verbatim>\<open>children\<close> array. Reading a property of undefined raises a TypeError.
\<close>

datatype 'v pdata = PData "'v model" "int option" "'v pdata list option"

datatype error = TypeError

text \<open>
  \<^verbatim>\<open>new TreeNode(model, index)\<close> allocates the next free address; the state of the
  parser is the store together with that address. The third argument of
  \<^verbatim>\<open>parseChildren\<close> is the position \<^verbatim>\<open>index\<close> handed to the callback of
  \<^verbatim>\<open>forEach\<close>.
\<close>

fun parseChildren :: "ref \<Rightarrow> 'v pdata list \<Rightarrow> nat \<Rightarrow> 'v heap \<times> ref \<Rightarrow> 'v heap \<times> ref" where
  "parseChildren parentNode [] i s = s"
| "parseChildren parentNode (PData m ix ch # rest) i (h, free) =
     (let childNode = free;
          h1 = h(childNode := \<lparr>model = m, children = [], index = Some (int i + 1)\<rparr>);
          h2 = addChild parentNode (Some childNode) h1;
          s3 = (case ch of
                  None \<Rightarrow> (h2, Suc free)
                | Some grandchildren \<Rightarrow> parseChildren childNode grandchildren 0 (h2, Suc free))
      in parseChildren parentNode rest (Suc i) s3)"

definition Tree_parse ::
  "'v pdata option \<Rightarrow> 'v heap \<times> ref \<Rightarrow> error + (ref option \<times> ('v heap \<times> ref))" where
  "Tree_parse object s =
     (case object of
        None \<Rightarrow> Inr (None, s)
      | Some (PData m ix ch) \<Rightarrow>
          (let rootNode = snd s;
               h1 = (fst s)(rootNode := \<lparr>model = m, children = [], index = ix\<rparr>)
           in case ch of
                None \<Rightarrow> Inl TypeError
              | Some cs \<Rightarrow> Inr (Some rootNode, parseChildren rootNode cs 0 (h1, Suc rootNode))))"

text \<open>
  The constructor: falsy data gives the empty tree, and the strategy defaults to
  \<^verbatim>\<open>defaultTraversalStrategy\<close>.
\<close>

definition Tree_new ::
  "nat \<Rightarrow> 'v pdata option \<Rightarrow> ('v heap \<Rightarrow> ref \<Rightarrow> ref list option) option \<Rightarrow> 'v heap \<times> ref
     \<Rightarrow> error + ('v Tree \<times> ('v heap \<times> ref))" where
  "Tree_new f object strat s =
     (case Tree_parse object s of
        Inl e \<Rightarrow> Inl e
      | Inr (r, s') \<Rightarrow>
          Inr (\<lparr>root = r,
                strategy = (case strat of None \<Rightarrow> defaultTraversalStrategy f | Some st \<Rightarrow> st)\<rparr>,
               s'))"

definition Tree_all :: "'v Tree \<Rightarrow> 'v heap \<Rightarrow> ref list option option" where
  "Tree_all t h =
     (case root t of
        None \<Rightarrow> Some None
      | Some r \<Rightarrow> (case strategy t h r of None \<Rightarrow> None | Some nodes \<Rightarrow> Some (Some nodes)))"

text \<open>
  \<^verbatim>\<open>removeFromArray\<close>: \<^verbatim>\<open>indexOf\<close> and \<^verbatim>\<open>splice(index, 1)\<close>.
  \<^verbatim>\<open>removeFromTree\<close> iterates with \<^verbatim>\<open>forEach\<close> over the children array of the
  current node: the length is read once, and each position is read from the array as
  it is when the position is reached.
\<close>

definition removeFromArray :: "ref list \<Rightarrow> ref \<Rightarrow> ref list" where
  "removeFromArray arr nodeToRemove =
     (let i = findIndex (\<lambda>x. x = nodeToRemove) arr
      in if i \<noteq> - 1 then take (nat i) arr @ drop (Suc (nat i)) arr else arr)"

function removeFromTree :: "nat \<Rightarrow> ref \<Rightarrow> ref \<Rightarrow> 'v heap \<Rightarrow> 'v heap option"
and removeFromTree_each :: "nat \<Rightarrow> ref \<Rightarrow> ref \<Rightarrow> nat \<Rightarrow> nat \<Rightarrow> 'v heap \<Rightarrow> 'v heap option"
where
  "removeFromTree 0 nodeToRemove currentNode h = None"
| "removeFromTree (Suc f) nodeToRemove currentNode h =
     removeFromTree_each f nodeToRemove currentNode 0
       (length (removeFromArray (children (h currentNode)) nodeToRemove))
       (h(currentNode := (h currentNode)\<lparr>children :=
            removeFromArray (children (h currentNode)) nodeToRemove\<rparr>))"
| "removeFromTree_each f nodeToRemove currentNode k len h =
     (if k < len
      then (if k < length (children (h currentNode))
            then (case removeFromTree f nodeToRemove (children (h currentNode) ! k) h of
                    None \<Rightarrow> None
                  | Some h' \<Rightarrow> removeFromTree_each f nodeToRemove currentNode (Suc k) len h')
            else removeFromTree_each f nodeToRemove currentNode (Suc k) len h)
      else Some h)"
  by pat_completeness auto
termination
  by (relation "inv_image (less_than <*lex*> less_than)
        (\<lambda>s. case s of
                Inl (f, x, cur, h) \<Rightarrow> (f, 0)
              | Inr (f, x, cur, k, len, h) \<Rightarrow> (f, Suc (len - k)))")
     auto

definition Tree_remove :: "nat \<Rightarrow> 'v Tree \<Rightarrow> ref \<Rightarrow> 'v heap \<Rightarrow> ('v Tree \<times> 'v heap) option" where
  "Tree_remove f t node h =
     (case root t of
        None \<Rightarrow> Some (t, h)
      | Some r \<Rightarrow>
          (if r = node then Some (t\<lparr>root := None\<rparr>, h)
           else (case removeFromTree f node r h of
                   None \<Rightarrow> None
                 | Some h' \<Rightarrow> Some (t, h'))))"

definition Tree_find ::
  "nat \<Rightarrow> 'v Tree \<Rightarrow> 'v predicateOrProperty \<Rightarrow> 'v option \<Rightarrow> 'v heap \<Rightarrow> ref option option" where
  "Tree_find f t predicateOrProperty val h =
     (case root t of
        None \<Rightarrow> Some None
      | Some r \<Rightarrow> findChild f h r predicateOrProperty val)"

text \<open>
  \<^verbatim>\<open>move\<close> calls \<^verbatim>\<open>node.getParent(this.root)\<close>: the receiver is the moved node and
  the argument is the root.
\<close>

definition Tree_move :: "nat \<Rightarrow> 'v Tree \<Rightarrow> ref \<Rightarrow> ref \<Rightarrow> 'v heap \<Rightarrow> 'v heap option" where
  "Tree_move f t node newParent h =
     (case getParent f h node (root t) of
        None \<Rightarrow> None
      | Some currentParent \<Rightarrow>
          Some (addChild newParent (Some node)
                  (case currentParent of
                     None \<Rightarrow> h
                   | Some p \<Rightarrow> removeChild p (Some node) h)))"

definition Tree_getPath :: "nat \<Rightarrow> 'v Tree \<Rightarrow> ref \<Rightarrow> 'v heap \<Rightarrow> ref list option option" where
  "Tree_getPath f t node h =
     (case root t of None \<Rightarrow> Some None | Some r \<Rightarrow> getPath f h r node)"

definition Tree_getReversePath :: "nat \<Rightarrow> 'v Tree \<Rightarrow> ref \<Rightarrow> 'v heap \<Rightarrow> ref list option option" where
  "Tree_getReversePath f t node h =
     (case root t of None \<Rightarrow> Some None | Some r \<Rightarrow> getReversePath f h r node)"

text \<open>
  The callback of \<^verbatim>\<open>walk\<close> runs for its effects: it may change the nodes and the
  caller's own state \<open>'w\<close>. The sequence of nodes is computed before the first call.
\<close>

definition Tree_walk ::
  "nat \<Rightarrow> 'v Tree \<Rightarrow> (ref \<Rightarrow> 'v heap \<times> 'w \<Rightarrow> 'v heap \<times> 'w) \<Rightarrow> 'v heap \<times> 'w
     \<Rightarrow> ('v heap \<times> 'w) option" where
  "Tree_walk f t callback s =
     (case root t of
        None \<Rightarrow> Some s
      | Some r \<Rightarrow>
          (case depthFirstSearch f (fst s) r InOrder of
             None \<Rightarrow> None
           | Some nodes \<Rightarrow> Some (fold callback nodes s)))"

fun insertChild_loop :: "'v predicate \<Rightarrow> ref \<Rightarrow> ref list \<Rightarrow> 'v heap \<Rightarrow> 'v heap" where
  "insertChild_loop predicate child [] h = h"
| "insertChild_loop predicate child (node # rest) h =
     (if predicate h node then addChild node (Some child) h
      else insertChild_loop predicate child rest h)"

definition Tree_insertChild ::
  "'v Tree \<Rightarrow> ref \<Rightarrow> 'v predicateOrProperty \<Rightarrow> 'v option \<Rightarrow> 'v heap \<Rightarrow> 'v heap option" where
  "Tree_insertChild t child predicateOrProperty val h =
     (case (case root t of None \<Rightarrow> Some [] | Some r \<Rightarrow> strategy t h r) of
        None \<Rightarrow> None
      | Some nodes \<Rightarrow> Some (insertChild_loop (resolve predicateOrProperty val) child nodes h))"

section \<open>Trees in the store\<close>

text \<open>
  The store holds a tree at an address when the children lists below it unfold to a
  finite tree. The unfolding names the nodes of the tree; a true tree (each node owned
  once, no cycle) is an unfolding whose addresses are distinct.
\<close>

datatype rtree = RNode (rlabel: ref) (subtrees: "rtree list")

fun shape :: "'v heap \<Rightarrow> rtree \<Rightarrow> bool" where
  "shape h (RNode r ts) = (children (h r) = map rlabel ts \<and> list_all (shape h) ts)"

fun preorder :: "rtree \<Rightarrow> ref list" where
  "preorder (RNode r ts) = r # concat (map preorder ts)"

fun postorder :: "rtree \<Rightarrow> ref list" where
  "postorder (RNode r ts) = concat (map postorder ts) @ [r]"

fun height :: "rtree \<Rightarrow> nat" where
  "height (RNode r ts) = Suc (foldr max (map height ts) 0)"

text \<open>
  The sequence a depth-first walk of an unfolding emits: a node before its subtrees in
  the two pre-orders, after them in the four others.
\<close>

fun emitted :: "order \<Rightarrow> rtree \<Rightarrow> ref list" where
  "emitted ord (RNode r ts) =
     (if ord = PreOrder \<or> ord = ReversePreOrder then [r] else [])
     @ concat (map (emitted ord) ts)
     @ (if ord = PreOrder \<or> ord = ReversePreOrder then [] else [r])"

definition is_tree :: "'v heap \<Rightarrow> ref \<Rightarrow> rtree \<Rightarrow> bool" where
  "is_tree h r t \<longleftrightarrow> rlabel t = r \<and> shape h t \<and> distinct (preorder t)"

text \<open>
  The nodes of the tree below an address, read off the store alone: the address and
  everything reached from it through children lists.
\<close>

inductive_set nodes_of :: "'v heap \<Rightarrow> ref \<Rightarrow> ref set" for h :: "'v heap" and r :: ref where
  self: "r \<in> nodes_of h r"
| child: "n \<in> nodes_of h r \<Longrightarrow> c \<in> set (children (h n)) \<Longrightarrow> c \<in> nodes_of h r"

text \<open>The traversals the library provides, as values of the strategy field.\<close>

datatype traversal = DepthFirst order | BreadthFirst

definition provided :: "nat \<Rightarrow> traversal \<Rightarrow> 'v heap \<Rightarrow> ref \<Rightarrow> ref list option" where
  "provided f tv =
     (case tv of
        DepthFirst ord \<Rightarrow> (\<lambda>h node. depthFirstSearch f h node ord)
      | BreadthFirst \<Rightarrow> breadthFirstOrder f)"

section \<open>The tree of the test suite\<close>

definition empty_heap :: "string heap" where
  "empty_heap = (\<lambda>_. \<lparr>model = (\<lambda>_. None), children = [], index = None\<rparr>)"

definition named :: "string \<Rightarrow> string model" where
  "named n = (\<lambda>_. None)(''name'' := Some n)"

text \<open>root \<open>0\<close> with children child1 \<open>1\<close> (owning grandchild1 \<open>2\<close>) and child2 \<open>3\<close>.\<close>

definition sample_heap :: "string heap" where
  "sample_heap = empty_heap
     (0 := \<lparr>model = named ''root'', children = [1, 3], index = Some 0\<rparr>,
      1 := \<lparr>model = named ''child1'', children = [2], index = Some 1\<rparr>,
      2 := \<lparr>model = named ''grandchild1'', children = [], index = Some 1\<rparr>,
      3 := \<lparr>model = named ''child2'', children = [], index = Some 2\<rparr>)"

definition sample_data :: "string pdata" where
  "sample_data =
     PData (named ''root'') (Some 0) (Some
       [PData (named ''child1'') (Some 1) (Some
          [PData (named ''grandchild1'') (Some 1) (Some [])]),
        PData (named ''child2'') (Some 2) (Some [])])"

definition sample_rtree :: rtree where
  "sample_rtree = RNode 0 [RNode 1 [RNode 2 []], RNode 3 []]"

definition sample_tree :: "traversal \<Rightarrow> string Tree" where
  "sample_tree tv = \<lparr>root = Some 0, strategy = provided 4 tv\<rparr>"

definition empty_tree :: "string Tree" where
  "empty_tree = \<lparr>root = None, strategy = defaultTraversalStrategy 4\<rparr>"

section \<open>Substring tests on the order names\<close>

lemma includes_pre [simp]:
  "str_includes (order_name ord) ''pre-order'' \<longleftrightarrow> ord = PreOrder \<or> ord = ReversePreOrder"
  by (cases ord) (simp_all add: str_includes_def sublist_Cons_right)

lemma includes_in [simp]:
  "str_includes (order_name ord) ''in-order'' \<longleftrightarrow> ord = InOrder \<or> ord = ReverseInOrder"
  by (cases ord) (simp_all add: str_includes_def sublist_Cons_right)

lemma includes_post [simp]:
  "str_includes (order_name ord) ''post-order'' \<longleftrightarrow> ord = PostOrder \<or> ord = ReversePostOrder"
  by (cases ord) (simp_all add: str_includes_def sublist_Cons_right)

section \<open>Depth-first search on a tree of the store\<close>

lemma traverse_Suc:
  "traverse (Suc f) h ord n acc =
     (case traverse_children f h ord (children (h n))
             (if ord = PreOrder \<or> ord = ReversePreOrder then acc @ [n] else acc) of
        None \<Rightarrow> None
      | Some r \<Rightarrow> Some (if ord = PreOrder \<or> ord = ReversePreOrder then r else r @ [n]))"
  by (cases ord; simp cong: option.case_cong del: order_name.simps)

declare traverse.simps(2) [simp del]

lemma traverse_same_flags:
  assumes "(a = PreOrder \<or> a = ReversePreOrder) = (b = PreOrder \<or> b = ReversePreOrder)"
  shows "traverse f h a n acc = traverse f h b n acc"
    and "traverse_children f h a cs acc = traverse_children f h b cs acc"
  using assms
proof (induction f h a n acc and f h a cs acc rule: traverse_traverse_children.induct)
  case (2 f h ord currentNode result)
  then show ?case by (auto simp: traverse_Suc split: option.splits)
next
  case (4 f h ord child rest result)
  then show ?case by (simp split: option.splits)
qed simp_all

lemma height_member: "t \<in> set ts \<Longrightarrow> height t \<le> foldr max (map height ts) 0"
  by (induction ts) auto

lemma traverse_children_emitted:
  assumes "\<And>t f acc. t \<in> set ts \<Longrightarrow> shape h t \<Longrightarrow> height t \<le> f \<Longrightarrow>
             traverse f h ord (rlabel t) acc = Some (acc @ emitted ord t)"
    and "list_all (shape h) ts" and "\<forall>t\<in>set ts. height t \<le> f"
  shows "traverse_children f h ord (map rlabel ts) acc = Some (acc @ concat (map (emitted ord) ts))"
  using assms
proof (induction ts arbitrary: acc)
  case Nil
  then show ?case by simp
next
  case (Cons t ts)
  have "traverse f h ord (rlabel t) acc = Some (acc @ emitted ord t)"
    using Cons.prems by simp
  moreover have "traverse_children f h ord (map rlabel ts) (acc @ emitted ord t)
      = Some ((acc @ emitted ord t) @ concat (map (emitted ord) ts))"
    using Cons.prems by (intro Cons.IH) simp_all
  ultimately show ?case by simp
qed

lemma traverse_emitted:
  "shape h t \<Longrightarrow> height t \<le> f \<Longrightarrow> traverse f h ord (rlabel t) acc = Some (acc @ emitted ord t)"
proof (induction t arbitrary: f acc)
  case (RNode r ts)
  from RNode.prems obtain f' where f: "f = Suc f'" by (cases f) auto
  have hs: "\<forall>t\<in>set ts. height t \<le> f'"
    using RNode.prems f height_member[of _ ts] by fastforce
  have sh: "list_all (shape h) ts" and ch: "children (h r) = map rlabel ts"
    using RNode.prems by simp_all
  have *: "traverse_children f' h ord (map rlabel ts) acc'
      = Some (acc' @ concat (map (emitted ord) ts))" for acc'
    by (rule traverse_children_emitted) (use RNode.IH sh hs in auto)
  show ?case
    by (simp add: f ch * traverse_Suc)
qed

lemma emitted_postorder: "ord = PostOrder \<or> ord = InOrder \<or> ord = ReversePostOrder \<or> ord = ReverseInOrder \<Longrightarrow> emitted ord t = postorder t"
  by (induction t) (auto intro!: arg_cong[where f=concat])

lemma emitted_preorder: "ord = PreOrder \<or> ord = ReversePreOrder \<Longrightarrow> emitted ord t = preorder t"
  by (induction t) (auto intro!: arg_cong[where f=concat])

lemma mset_emitted: "mset (emitted ord t) = mset (preorder t)"
  by (induction t) (auto simp: mset_concat intro!: arg_cong[where f=sum_list] arg_cong[where f=mset])

section \<open>The nodes of a tree of the store\<close>

lemma rlabel_in_preorder: "rlabel t \<in> set (preorder t)"
  by (cases t) simp

lemma nodes_of_trans: "x \<in> nodes_of h c \<Longrightarrow> c \<in> nodes_of h r \<Longrightarrow> x \<in> nodes_of h r"
  by (induction rule: nodes_of.induct) (auto intro: nodes_of.child)

lemma preorder_subset_nodes_of: "shape h t \<Longrightarrow> set (preorder t) \<subseteq> nodes_of h (rlabel t)"
proof (induction t)
  case (RNode r ts)
  have "set (preorder t') \<subseteq> nodes_of h r" if t': "t' \<in> set ts" for t'
  proof -
    have "shape h t'" using RNode.prems t' by (simp add: list_all_iff)
    then have "set (preorder t') \<subseteq> nodes_of h (rlabel t')" using RNode.IH t' by blast
    moreover have "rlabel t' \<in> nodes_of h r"
      using RNode.prems t' by (auto intro!: nodes_of.child[OF nodes_of.self])
    ultimately show ?thesis using nodes_of_trans by blast
  qed
  then show ?case by (auto intro: nodes_of.self)
qed

lemma preorder_closed:
  "shape h t \<Longrightarrow> n \<in> set (preorder t) \<Longrightarrow> set (children (h n)) \<subseteq> set (preorder t)"
proof (induction t)
  case (RNode r ts)
  show ?case
  proof (cases "n = r")
    case True
    then show ?thesis using RNode.prems rlabel_in_preorder by fastforce
  next
    case False
    then obtain t' where t': "t' \<in> set ts" "n \<in> set (preorder t')"
      using RNode.prems by auto
    then have "shape h t'" using RNode.prems by (simp add: list_all_iff)
    then have "set (children (h n)) \<subseteq> set (preorder t')" using RNode.IH t' by blast
    then show ?thesis using t' by auto
  qed
qed

lemma nodes_of_preorder: "shape h t \<Longrightarrow> nodes_of h (rlabel t) = set (preorder t)"
proof
  assume s: "shape h t"
  show "nodes_of h (rlabel t) \<subseteq> set (preorder t)"
  proof
    fix x assume "x \<in> nodes_of h (rlabel t)"
    then show "x \<in> set (preorder t)"
      by (induction rule: nodes_of.induct) (use s preorder_closed rlabel_in_preorder in blast)+
  qed
  show "set (preorder t) \<subseteq> nodes_of h (rlabel t)" using s by (rule preorder_subset_nodes_of)
qed

section \<open>Facts about the tree of the test suite\<close>

text \<open>The store of the sample is the one \<^verbatim>\<open>parse\<close> builds from the test data.\<close>

lemma parse_sample:
  "Tree_parse (Some sample_data) (empty_heap, 0) = Inr (Some 0, sample_heap, 4)"
  apply (simp add: Tree_parse_def sample_data_def sample_heap_def addChild_def Let_def)
  apply (rule ext)
  apply (simp add: empty_heap_def)
  done

lemma sample_is_tree: "is_tree sample_heap 0 sample_rtree"
  by (simp add: is_tree_def sample_heap_def sample_rtree_def)

lemma sample_nodes: "nodes_of sample_heap 0 = {0, 1, 2, 3}"
proof -
  have "shape sample_heap sample_rtree" using sample_is_tree by (simp add: is_tree_def)
  from nodes_of_preorder[OF this] show ?thesis by (auto simp add: sample_rtree_def)
qed

section \<open>Searching below a node\<close>

lemma height_pos: "0 < height t"
  by (cases t) simp

lemma findChild_loop_none:
  "list_all (shape h) ts \<Longrightarrow> \<forall>t\<in>set ts. height t \<le> f \<Longrightarrow>
   \<forall>x\<in>set (concat (map preorder ts)). \<not> P h x \<Longrightarrow>
   findChild_loop f h P (map rlabel ts) = Some None"
proof (induction f arbitrary: ts)
  case 0
  show ?case
  proof (cases ts)
    case Nil
    then show ?thesis by simp
  next
    case (Cons a list)
    then have "height a \<le> 0" using "0.prems"(2) by simp
    with height_pos[of a] show ?thesis by simp
  qed
next
  case (Suc f)
  from Suc.prems show ?case
  proof (induction ts)
    case Nil
    then show ?case by simp
  next
    case (Cons t ts)
    obtain r cs where t: "t = RNode r cs" by (cases t)
    have "\<forall>c\<in>set cs. height c \<le> f"
      using Cons.prems(2) t height_member[of _ cs] by fastforce
    moreover have "list_all (shape h) cs" "children (h r) = map rlabel cs"
      using Cons.prems(1) t by simp_all
    moreover have "\<forall>x\<in>set (concat (map preorder cs)). \<not> P h x"
      using Cons.prems(3) t by simp
    ultimately have sub: "findChild_loop f h P (children (h r)) = Some None"
      using Suc.IH by simp
    have "\<not> P h r" using Cons.prems(3) t by simp
    moreover have "findChild_loop (Suc f) h P (map rlabel ts) = Some None"
      using Cons.prems by (intro Cons.IH) simp_all
    ultimately show ?case using sub t by simp
  qed
qed

section \<open>Breadth-first order on a tree of the store\<close>

lemma height_le_size: "height t \<le> length (preorder t)"
proof (induction t)
  case (RNode r ts)
  have "foldr max (map height ts) 0 \<le> length (concat (map preorder ts))"
    using RNode.IH
  proof (induction ts)
    case Nil
    then show ?case by simp
  next
    case (Cons a ts)
    have "height a \<le> length (preorder a)" using Cons.prems by simp
    moreover have "foldr max (map height ts) 0 \<le> length (concat (map preorder ts))"
      using Cons.prems by (intro Cons.IH) simp
    ultimately show ?case by simp
  qed
  then show ?case by simp
qed

lemma breadthFirst_loop_forest:
  "list_all (shape h) ts \<Longrightarrow> length (concat (map preorder ts)) \<le> f \<Longrightarrow>
   \<exists>xs. breadthFirst_loop f h (map rlabel ts) acc = Some (acc @ xs) \<and>
        mset xs = mset (concat (map preorder ts))"
proof (induction f arbitrary: ts acc)
  case 0
  show ?case
  proof (cases ts)
    case Nil
    then show ?thesis by simp
  next
    case (Cons a list)
    then have "preorder a = []" using "0.prems"(2) by simp
    with rlabel_in_preorder[of a] show ?thesis by simp
  qed
next
  case (Suc f)
  show ?case
  proof (cases ts)
    case Nil
    then show ?thesis by simp
  next
    case (Cons t rest)
    obtain r cs where t: "t = RNode r cs" by (cases t)
    have sh: "list_all (shape h) (rest @ cs)" and ch: "children (h r) = map rlabel cs"
      using Suc.prems(1) Cons t by simp_all
    have len: "length (concat (map preorder (rest @ cs))) \<le> f"
      using Suc.prems(2) Cons t by simp
    from Suc.IH[OF sh len, of "acc @ [r]"] obtain xs where
      xs: "breadthFirst_loop f h (map rlabel (rest @ cs)) (acc @ [r]) = Some ((acc @ [r]) @ xs)"
        "mset xs = mset (concat (map preorder (rest @ cs)))"
      by blast
    have "breadthFirst_loop (Suc f) h (map rlabel ts) acc = Some (acc @ (r # xs))"
      using xs(1) Cons t ch by simp
    moreover have "mset (r # xs) = mset (concat (map preorder ts))"
      using xs(2) Cons t by simp
    ultimately show ?thesis by blast
  qed
qed

lemma provided_mset:
  assumes "shape h t" and "length (preorder t) \<le> f"
  shows "\<exists>xs. provided f tv h (rlabel t) = Some xs \<and> mset xs = mset (preorder t)"
proof (cases tv)
  case (DepthFirst ord)
  have "height t \<le> f" using assms(2) height_le_size[of t] by simp
  then have "traverse f h ord (rlabel t) [] = Some (emitted ord t)"
    using traverse_emitted[OF assms(1), of f ord "[]"] by simp
  then show ?thesis
    by (simp add: DepthFirst provided_def depthFirstSearch_def mset_emitted)
next
  case BreadthFirst
  have "list_all (shape h) [t]" "length (concat (map preorder [t])) \<le> f"
    using assms by simp_all
  from breadthFirst_loop_forest[OF this, of "[]"] show ?thesis
    by (simp add: BreadthFirst provided_def breadthFirstOrder_def)
qed

section \<open>Insertion\<close>

lemma findIndex_takeWhile:
  "findIndex p xs = (if \<exists>x\<in>set xs. p x then int (length (takeWhile (\<lambda>x. \<not> p x) xs)) else - 1)"
  by (induction xs) (auto simp: Let_def)

lemma splice_insert_takeWhile:
  "splice_insert (int (length (takeWhile q xs))) c xs = takeWhile q xs @ c # dropWhile q xs"
  by (simp add: splice_insert_def takeWhile_eq_take[symmetric] dropWhile_eq_drop[symmetric])

lemma insertChild_loop_find:
  "insertChild_loop p c nodes h =
     (case List.find (p h) nodes of
        None \<Rightarrow> h
      | Some n \<Rightarrow> h(n := (h n)\<lparr>children := children (h n) @ [c]\<rparr>))"
  by (induction nodes) (auto simp: addChild_def fun_eq_iff)

section \<open>Moving a node\<close>

text \<open>
  C1. After \<^verbatim>\<open>move(node, newParent)\<close> the parent found from the root should be the
  new parent, and the former parent should no longer own the node. On the tree of the
  test suite, moving grandchild1 (\<open>2\<close>) from child1 (\<open>1\<close>) to child2 (\<open>3\<close>) only
  appends: the parent lookup runs on the moved node with the root as argument and finds
  nothing, so child1 still owns the node, child2 owns it too, and the parent found from
  the root is still child1.
\<close>

theorem move_leaves_node_with_former_parent:
  "Tree_move 4 (sample_tree (DepthFirst InOrder)) 2 3 sample_heap
     = Some (addChild 3 (Some 2) sample_heap) \<and>
   children (addChild 3 (Some 2) sample_heap 1) = [2] \<and>
   children (addChild 3 (Some 2) sample_heap 3) = [2] \<and>
   getParent 4 (addChild 3 (Some 2) sample_heap) 0 (Some 2) = Some (Some 1)"
  by (simp add: Tree_move_def sample_tree_def getParent_def sample_heap_def addChild_def
      eval_nat_numeral)

section \<open>The parent of a node\<close>

text \<open>
  C2. \<^verbatim>\<open>getParent\<close> should return the immediate owner of the child, the receiver
  included. On the tree of the test suite child1 (\<open>1\<close>) owns grandchild1 (\<open>2\<close>) and the
  root (\<open>0\<close>) owns child1, yet asking either owner for the parent of its own child
  returns null.
\<close>

theorem getParent_misses_direct_child:
  "2 \<in> set (children (sample_heap 1)) \<and> getParent 4 sample_heap 1 (Some 2) = Some None \<and>
   1 \<in> set (children (sample_heap 0)) \<and> getParent 4 sample_heap 0 (Some 1) = Some None"
  by (simp add: getParent_def sample_heap_def eval_nat_numeral)

section \<open>Parsing\<close>

text \<open>
  C3. \<^verbatim>\<open>parse\<close> should accept data with a model, an optional index and no
  \<^verbatim>\<open>children\<close> entry. For every such input it raises a TypeError: the root's
  children are iterated without the test that guards the children of every other
  entry.
\<close>

theorem parse_without_children_raises:
  "Tree_parse (Some (PData m ix None)) s = Inl TypeError"
  by (simp add: Tree_parse_def)

section \<open>The empty tree\<close>

text \<open>
  C4, as stated, fails: on an empty tree \<^verbatim>\<open>move\<close> changes the new parent.
\<close>

theorem empty_tree_move_counterexample:
  "root empty_tree = None \<and>
   Tree_move 4 empty_tree 2 3 sample_heap = Some (addChild 3 (Some 2) sample_heap) \<and>
   children (sample_heap 3) = [] \<and>
   children (addChild 3 (Some 2) sample_heap 3) = [2]"
  by (simp add: Tree_move_def empty_tree_def getParent_def addChild_def sample_heap_def)

text \<open>
  C4, amended. On an empty tree \<^verbatim>\<open>all\<close>, \<^verbatim>\<open>find\<close>, \<^verbatim>\<open>getPath\<close> and
  \<^verbatim>\<open>getReversePath\<close> return null; \<^verbatim>\<open>remove\<close>, \<^verbatim>\<open>walk\<close> and \<^verbatim>\<open>insertChild\<close>
  leave the tree and every node as they are; \<^verbatim>\<open>move\<close> detaches nothing and appends
  the node to the children of the new parent, every other node staying as it is.
\<close>

theorem empty_tree_operations:
  "root t = None \<Longrightarrow>
     Tree_all t h = Some None \<and>
     Tree_find f t predicateOrProperty val h = Some None \<and>
     Tree_remove f t node h = Some (t, h) \<and>
     Tree_getPath f t node h = Some None \<and>
     Tree_getReversePath f t node h = Some None \<and>
     Tree_walk f t callback s = Some s \<and>
     Tree_insertChild t child predicateOrProperty val h = Some h \<and>
     Tree_move f t node newParent h
       = Some (h(newParent := (h newParent)\<lparr>children := children (h newParent) @ [node]\<rparr>))"
  by (simp add: Tree_all_def Tree_find_def Tree_remove_def Tree_getPath_def
      Tree_getReversePath_def Tree_walk_def Tree_insertChild_def Tree_move_def
      getParent_def addChild_def)

theorem empty_tree_operations_witness:
  "root empty_tree = None \<and>
   Tree_all empty_tree sample_heap = Some None \<and>
   Tree_find 4 empty_tree (Property ''name'') (Some ''root'') sample_heap = Some None \<and>
   Tree_remove 4 empty_tree 2 sample_heap = Some (empty_tree, sample_heap) \<and>
   Tree_getPath 4 empty_tree 2 sample_heap = Some None \<and>
   Tree_getReversePath 4 empty_tree 2 sample_heap = Some None \<and>
   Tree_walk 4 empty_tree (\<lambda>n (h, k). (h, Suc k)) (sample_heap, 0) = Some (sample_heap, 0) \<and>
   Tree_insertChild empty_tree 5 (Property ''name'') (Some ''root'') sample_heap
     = Some sample_heap \<and>
   Tree_move 4 empty_tree 2 3 sample_heap
     = Some (sample_heap(3 := (sample_heap 3)\<lparr>children := children (sample_heap 3) @ [2]\<rparr>))"
proof -
  have r: "root empty_tree = None" by (simp add: empty_tree_def)
  show ?thesis
    using r
      empty_tree_operations [OF r, of sample_heap 4 "Property ''name''" "Some ''root''" 2
        "\<lambda>n (h, k). (h, Suc k)" "(sample_heap, 0)" 5 3]
    by simp
qed

section \<open>Relations between the depth-first orders\<close>

text \<open>
  C5. For every node, \<^verbatim>\<open>depthFirstSearch\<close> gives the same sequence for
  \<^verbatim>\<open>"post-order"\<close> and \<^verbatim>\<open>"in-order"\<close>, both being values of the order type; on a
  tree of the store, with fuel for its height, both return the post-order sequence of
  the tree, in which every node comes after all the nodes below it.
\<close>

theorem depthFirstSearch_post_in:
  "depthFirstSearch f h n PostOrder = depthFirstSearch f h n InOrder \<and>
   (shape h t \<and> height t \<le> f \<longrightarrow>
      depthFirstSearch f h (rlabel t) PostOrder = Some (postorder t) \<and>
      depthFirstSearch f h (rlabel t) InOrder = Some (postorder t))"
proof -
  have "traverse f h PostOrder n [] = traverse f h InOrder n []"
    by (rule traverse_same_flags) simp
  then have eq: "depthFirstSearch f h n PostOrder = depthFirstSearch f h n InOrder"
    by (simp add: depthFirstSearch_def split: option.splits)
  show ?thesis
    using eq by (simp add: depthFirstSearch_def traverse_emitted emitted_postorder)
qed

theorem depthFirstSearch_post_in_witness:
  "shape sample_heap sample_rtree \<and> height sample_rtree \<le> 3 \<and>
   depthFirstSearch 3 sample_heap 0 PostOrder = Some [2, 1, 3, 0] \<and>
   depthFirstSearch 3 sample_heap 0 InOrder = Some [2, 1, 3, 0]"
proof -
  have s: "shape sample_heap sample_rtree"
    by (simp add: sample_heap_def sample_rtree_def)
  have hh: "height sample_rtree \<le> 3"
    by (simp add: sample_rtree_def)
  show ?thesis
    using s hh depthFirstSearch_post_in [of 3 sample_heap 0 sample_rtree]
    by (simp add: sample_rtree_def)
qed

text \<open>
  C6. For each of the three base orders, \<^verbatim>\<open>depthFirstSearch\<close> with the reverse
  variant returns the sequence of the base order reversed end to end (and returns
  exactly when the base order does).
\<close>

theorem depthFirstSearch_reverse:
  "depthFirstSearch f h n ReversePreOrder = map_option rev (depthFirstSearch f h n PreOrder) \<and>
   depthFirstSearch f h n ReversePostOrder = map_option rev (depthFirstSearch f h n PostOrder) \<and>
   depthFirstSearch f h n ReverseInOrder = map_option rev (depthFirstSearch f h n InOrder)"
proof -
  have "traverse f h ReversePreOrder n [] = traverse f h PreOrder n []"
       "traverse f h ReversePostOrder n [] = traverse f h PostOrder n []"
       "traverse f h ReverseInOrder n [] = traverse f h InOrder n []"
    by (rule traverse_same_flags; simp)+
  then show ?thesis
    by (simp add: depthFirstSearch_def split: option.splits)
qed

section \<open>All nodes of a tree\<close>

text \<open>
  C7. For every non-empty tree of the store (the children lists below the root unfold
  to a finite tree whose nodes are distinct) and every provided traversal, the six
  depth-first orders and breadth-first, \<^verbatim>\<open>all\<close> returns, given fuel for the number
  of nodes, a sequence whose set is exactly the set of nodes of the tree and whose
  length is the number of nodes, the root included.
\<close>

theorem all_returns_every_node_once:
  assumes "root t = Some r" and "is_tree h r tr" and "strategy t = provided f tv"
    and "card (nodes_of h r) \<le> f"
  shows "\<exists>xs. Tree_all t h = Some (Some xs) \<and> set xs = nodes_of h r \<and>
              length xs = card (nodes_of h r)"
proof -
  have sh: "shape h tr" and d: "distinct (preorder tr)" and l: "rlabel tr = r"
    using assms(2) by (simp_all add: is_tree_def)
  have n: "nodes_of h r = set (preorder tr)" using nodes_of_preorder[OF sh] l by simp
  have c: "card (nodes_of h r) = length (preorder tr)" using n d distinct_card by fastforce
  then have "length (preorder tr) \<le> f" using assms(4) by simp
  from provided_mset[OF sh this, of tv] obtain xs where
    xs: "provided f tv h r = Some xs" "mset xs = mset (preorder tr)" using l by auto
  have "set xs = set (preorder tr)" using xs(2) by (rule mset_eq_setD)
  moreover have "length xs = length (preorder tr)" using xs(2) by (rule mset_eq_length)
  moreover have "Tree_all t h = Some (Some xs)"
    using assms(1,3) xs(1) by (simp add: Tree_all_def)
  ultimately show ?thesis using n c by simp
qed

theorem all_returns_every_node_once_witness:
  "root (sample_tree BreadthFirst) = Some 0 \<and> is_tree sample_heap 0 sample_rtree \<and>
   strategy (sample_tree BreadthFirst) = provided 4 BreadthFirst \<and>
   card (nodes_of sample_heap 0) \<le> 4 \<and>
   Tree_all (sample_tree BreadthFirst) sample_heap = Some (Some [0, 1, 3, 2]) \<and>
   set [0, 1, 3, 2] = nodes_of sample_heap 0 \<and>
   length [0, 1, 3, 2 :: nat] = card (nodes_of sample_heap 0)"
proof -
  have r: "root (sample_tree BreadthFirst) = Some 0" by (simp add: sample_tree_def)
  have s: "strategy (sample_tree BreadthFirst) = provided 4 BreadthFirst"
    by (simp add: sample_tree_def)
  have c: "card (nodes_of sample_heap 0) \<le> 4" by (simp add: sample_nodes)
  have a: "Tree_all (sample_tree BreadthFirst) sample_heap = Some (Some [0, 1, 3, 2])"
    by (simp add: Tree_all_def sample_tree_def provided_def breadthFirstOrder_def
        sample_heap_def eval_nat_numeral)
  show ?thesis
    using r sample_is_tree s c a
      all_returns_every_node_once [OF r sample_is_tree s c]
    by (auto simp: sample_nodes)
qed

section \<open>Inserting a child\<close>

text \<open>
  C8. \<^verbatim>\<open>insertChild\<close> of a node with a non-null child puts the child immediately
  before the first child satisfying the predicate, at the end when none does, keeps
  the other children in their order and makes the list one longer. \<^verbatim>\<open>insertChild\<close>
  of a tree appends the child to the children of the first node of the strategy's
  sequence that satisfies the predicate, and changes nothing when none does.
\<close>

theorem insertChild_node_and_tree:
  "insertChild this (Some c) predicateOrProperty val h
     = h(this := (h this)\<lparr>children :=
           takeWhile (\<lambda>x. \<not> resolve predicateOrProperty val h x) (children (h this))
           @ c # dropWhile (\<lambda>x. \<not> resolve predicateOrProperty val h x) (children (h this))\<rparr>) \<and>
   length (children (insertChild this (Some c) predicateOrProperty val h this))
     = length (children (h this)) + 1 \<and>
   (root t = Some r \<and> strategy t h r = Some nodes \<longrightarrow>
      Tree_insertChild t c predicateOrProperty val h
        = Some (case List.find (resolve predicateOrProperty val h) nodes of
                  None \<Rightarrow> h
                | Some n \<Rightarrow> h(n := (h n)\<lparr>children := children (h n) @ [c]\<rparr>)))"
proof -
  let ?p = "resolve predicateOrProperty val h"
  let ?cs = "children (h this)"
  have a: "insertChild this (Some c) predicateOrProperty val h
     = h(this := (h this)\<lparr>children := takeWhile (\<lambda>x. \<not> ?p x) ?cs @ c # dropWhile (\<lambda>x. \<not> ?p x) ?cs\<rparr>)"
  proof (cases "\<exists>x\<in>set ?cs. ?p x")
    case True
    then show ?thesis
      by (simp add: insertChild_def findIndex_takeWhile splice_insert_takeWhile)
  next
    case False
    then have tw: "takeWhile (\<lambda>x. \<not> ?p x) ?cs = ?cs"
      and dw: "dropWhile (\<lambda>x. \<not> ?p x) ?cs = []"
      by simp_all
    show ?thesis unfolding tw dw using False
      by (simp add: insertChild_def findIndex_takeWhile)
  qed
  have "length (takeWhile (\<lambda>x. \<not> ?p x) ?cs) + length (dropWhile (\<lambda>x. \<not> ?p x) ?cs)
      = length ?cs"
    by (simp only: length_append[symmetric] takeWhile_dropWhile_id)
  then have "length (takeWhile (\<lambda>x. \<not> ?p x) ?cs @ c # dropWhile (\<lambda>x. \<not> ?p x) ?cs)
      = length ?cs + 1"
    by simp
  then have b: "length (children (insertChild this (Some c) predicateOrProperty val h this))
     = length ?cs + 1"
    by (simp add: a)
  have c: "root t = Some r \<and> strategy t h r = Some nodes \<longrightarrow>
      Tree_insertChild t c predicateOrProperty val h
        = Some (case List.find ?p nodes of
                  None \<Rightarrow> h
                | Some n \<Rightarrow> h(n := (h n)\<lparr>children := children (h n) @ [c]\<rparr>))"
    by (simp add: Tree_insertChild_def insertChild_loop_find)
  show ?thesis using a b c by blast
qed

theorem insertChild_node_and_tree_witness:
  "children (insertChild 0 (Some 5) (Property ''name'') (Some ''child2'') sample_heap 0) = [1, 5, 3] \<and>
   root (sample_tree (DepthFirst InOrder)) = Some 0 \<and>
   strategy (sample_tree (DepthFirst InOrder)) sample_heap 0 = Some [2, 1, 3, 0] \<and>
   map_option (\<lambda>h'. map (\<lambda>n. children (h' n)) [0, 1, 2, 3])
     (Tree_insertChild (sample_tree (DepthFirst InOrder)) 5 (Property ''name'') (Some ''child2'') sample_heap)
     = Some [[1, 3], [2], [], [5]]"
proof -
  have r: "root (sample_tree (DepthFirst InOrder)) = Some 0" by (simp add: sample_tree_def)
  have s: "strategy (sample_tree (DepthFirst InOrder)) sample_heap 0 = Some [2, 1, 3, 0]"
    by (simp add: sample_tree_def provided_def depthFirstSearch_def traverse_Suc
        sample_heap_def eval_nat_numeral)
  have p: "map (resolve (Property ''name'') (Some ''child2'') sample_heap) [0, 1, 2, 3]
            = [False, False, False, True]"
    by (simp add: resolve_def sample_heap_def named_def)
  have c: "map (\<lambda>n. children (sample_heap n)) [0, 1, 2, 3] = [[1, 3], [2], [], []]"
    by (simp add: sample_heap_def)
  show ?thesis
    using r s p c
      insertChild_node_and_tree [of 0 5 "Property ''name''" "Some ''child2''" sample_heap
        "sample_tree (DepthFirst InOrder)" 0 "[2, 1, 3, 0]"]
    by simp
qed

section \<open>Removing the root\<close>

text \<open>
  C9. For every tree with root \<open>r\<close>, whatever lies below it, \<^verbatim>\<open>remove(r)\<close> leaves
  the root absent and the nodes untouched, and \<^verbatim>\<open>all\<close> returns null afterwards.
\<close>

theorem remove_root:
  "root t = Some r \<Longrightarrow>
     Tree_remove f t r h = Some (t\<lparr>root := None\<rparr>, h) \<and>
     root (t\<lparr>root := None\<rparr>) = None \<and>
     Tree_all (t\<lparr>root := None\<rparr>) h = Some None"
  by (simp add: Tree_remove_def Tree_all_def)

theorem remove_root_witness:
  "root (sample_tree BreadthFirst) = Some 0 \<and>
   Tree_all (sample_tree BreadthFirst) sample_heap = Some (Some [0, 1, 3, 2]) \<and>
   Tree_remove 4 (sample_tree BreadthFirst) 0 sample_heap
     = Some ((sample_tree BreadthFirst)\<lparr>root := None\<rparr>, sample_heap) \<and>
   Tree_all ((sample_tree BreadthFirst)\<lparr>root := None\<rparr>) sample_heap = Some None"
proof -
  have r: "root (sample_tree BreadthFirst) = Some 0"
    by (simp add: sample_tree_def)
  have a: "Tree_all (sample_tree BreadthFirst) sample_heap = Some (Some [0, 1, 3, 2])"
    by (simp add: Tree_all_def sample_tree_def provided_def breadthFirstOrder_def
        sample_heap_def eval_nat_numeral)
  show ?thesis
    using r a remove_root [OF r, of 4 sample_heap] by simp
qed

section \<open>Finding a node\<close>

text \<open>
  C10. \<^verbatim>\<open>find\<close> searches below the root only: on every non-empty tree of the store,
  for every predicate or property and value that the root satisfies and no other node
  of the tree does, \<^verbatim>\<open>find\<close> returns null, given fuel for the height of the tree.
\<close>

theorem find_never_root:
  assumes "root t = Some r" and "is_tree h r tr" and "height tr \<le> f"
    and "\<forall>x\<in>nodes_of h r. resolve predicateOrProperty val h x \<longleftrightarrow> x = r"
  shows "Tree_find f t predicateOrProperty val h = Some None"
proof -
  obtain cs where tr: "tr = RNode r cs" using assms(2) by (cases tr) (simp add: is_tree_def)
  have sh: "shape h tr" and d: "distinct (preorder tr)" using assms(2) by (simp_all add: is_tree_def)
  have n: "nodes_of h r = set (preorder tr)" using nodes_of_preorder[OF sh] tr by simp
  have "r \<notin> set (concat (map preorder cs))" using d tr by simp
  then have "\<forall>x\<in>set (concat (map preorder cs)). \<not> resolve predicateOrProperty val h x"
    using assms(4) n tr by auto
  moreover have "\<forall>c\<in>set cs. height c \<le> f"
    using assms(3) tr height_member[of _ cs] by fastforce
  moreover have "list_all (shape h) cs" "children (h r) = map rlabel cs" using sh tr by simp_all
  ultimately have "findChild_loop f h (resolve predicateOrProperty val) (children (h r)) = Some None"
    using findChild_loop_none by simp
  then show ?thesis using assms(1) by (simp add: Tree_find_def findChild_def)
qed

theorem find_never_root_witness:
  "root (sample_tree BreadthFirst) = Some 0 \<and> is_tree sample_heap 0 sample_rtree \<and>
   height sample_rtree \<le> 3 \<and>
   nodes_of sample_heap 0 = {0, 1, 2, 3} \<and>
   map (resolve (Property ''name'') (Some ''root'') sample_heap) [0, 1, 2, 3]
     = [True, False, False, False] \<and>
   Tree_find 3 (sample_tree BreadthFirst) (Property ''name'') (Some ''root'') sample_heap = Some None"
proof -
  have r: "root (sample_tree BreadthFirst) = Some 0" by (simp add: sample_tree_def)
  have hh: "height sample_rtree \<le> 3" by (simp add: sample_rtree_def)
  have p: "\<forall>x\<in>nodes_of sample_heap 0.
      resolve (Property ''name'') (Some ''root'') sample_heap x \<longleftrightarrow> x = 0"
    by (simp add: sample_nodes resolve_def sample_heap_def named_def empty_heap_def)
  have q: "map (resolve (Property ''name'') (Some ''root'') sample_heap) [0, 1, 2, 3]
            = [True, False, False, False]"
    by (simp add: resolve_def sample_heap_def named_def)
  show ?thesis
    using r sample_is_tree hh q sample_nodes find_never_root [OF r sample_is_tree hh p]
    by simp
qed

end
